theory Spec2Isabelle
  imports Main
begin

section \<open>The reactive effect \<open>Watch\<close>\<close>

text \<open>
  The class \<open>Watch\<close> (the second file of \<open>src/unnamed/part_006\<close>; it imports
  \<open>ReactiveNode\<close> and \<open>setActiveConsumer\<close> from \<open>./graph\<close>) wraps a user function
  that is re-run when a dependency notifies. It is modelled by explicit state
  passing.

  \<^item> The mutable part is the record \<open>state\<close>: the module-level active-consumer
    register of \<open>graph.ts\<close>, the fields \<open>dirty\<close>, \<open>cleanupFn\<close> and \<open>trackingVersion\<close>
    of the one watch under study, and \<open>ext\<close>, everything else a user function can
    touch (producers, the dependency edges of the node, the scheduler's queue).
  \<^item> The part fixed by the constructor is the record \<open>Watch\<close>: the identity of the
    object, the functions \<open>watch\<close> and \<open>schedule\<close> and the flag
    \<open>consumerAllowSignalWrites\<close>.
  \<^item> A JavaScript function is any state transformer that either returns or throws:
    \<open>state \<Rightarrow> outcome \<times> state\<close>. A user function may therefore do anything to the
    state, including what a re-entrant call of \<open>notify()\<close> or \<open>run()\<close> would do.
  \<^item> A function stored in the field \<open>cleanupFn\<close> is either the module constant
    \<open>NOOP_CLEANUP_FN\<close> or a closure handed to \<open>registerOnCleanup\<close>; closures are named
    by values of type \<open>'f\<close> and \<open>closure\<close> gives the function a name stands for.
  \<^item> Every method returns, besides its outcome and the new state, the calls to
    user-supplied functions it made itself, in order, each with the state the
    function was called in.
  \<^item> \<open>trackingVersion\<close> is a natural number: the loss of precision of \<open>++\<close> on a
    JavaScript number above \<open>2^53\<close> is outside the model.
\<close>

subsection \<open>Data\<close>

datatype 'f WatchCleanupFn = NOOP_CLEANUP_FN | Closure 'f

datatype 'e outcome = Returned | Threw 'e

record ('n, 'f, 'u) state =
  activeConsumer :: "'n option"
  dirty :: bool
  cleanupFn :: "'f WatchCleanupFn"
  trackingVersion :: nat
  ext :: 'u

type_synonym ('n, 'f, 'e, 'u) fn =
  "('n, 'f, 'u) state \<Rightarrow> 'e outcome \<times> ('n, 'f, 'u) state"

record ('n, 'f, 'e, 'u) Watch =
  self :: 'n
  watch :: "('n, 'f, 'e, 'u) fn"
  schedule :: "('n, 'f, 'e, 'u) fn"
  consumerAllowSignalWrites :: bool
  closure :: "'f \<Rightarrow> ('n, 'f, 'e, 'u) fn"
  consumerPollProducersForChange :: "'u \<Rightarrow> bool \<times> 'u"

text \<open>
  \<open>consumerPollProducersForChange\<close> is a method of the base class \<open>ReactiveNode\<close>
  (\<open>graph.ts\<close>), which the watch inherits; it is a parameter here. It walks the
  dependency edges of the node and may let producers recompute, so it reads and
  updates \<open>ext\<close> and answers whether a dependency changed.
\<close>

datatype 'f callee = ScheduleFn | WatchFn | CleanupFn "'f WatchCleanupFn"

type_synonym ('n, 'f, 'u) calls = "('f callee \<times> ('n, 'f, 'u) state) list"

type_synonym ('n, 'f, 'e, 'u) action =
  "('n, 'f, 'u) state \<Rightarrow> 'e outcome \<times> ('n, 'f, 'u) calls \<times> ('n, 'f, 'u) state"

definition outcome_of :: "'a \<times> 'b \<times> 'c \<Rightarrow> 'a" where
  "outcome_of r = fst r"

definition calls_of :: "'a \<times> 'b \<times> 'c \<Rightarrow> 'b" where
  "calls_of r = fst (snd r)"

definition state_of :: "'a \<times> 'b \<times> 'c \<Rightarrow> 'c" where
  "state_of r = snd (snd r)"

subsection \<open>The graph primitives the watch uses\<close>

text \<open>
  Modelled from the spec: \<open>setActiveConsumer\<close> of \<open>graph.ts\<close>, which is not among the
  sources. The spec (4.1): it "swaps the process-wide current consumer slot, returns
  the previous occupant so it can be restored".
\<close>

definition setActiveConsumer ::
  "'n option \<Rightarrow> ('n, 'f, 'u) state \<Rightarrow> 'n option \<times> ('n, 'f, 'u) state" where
  "setActiveConsumer consumer s = (activeConsumer s, s\<lparr>activeConsumer := consumer\<rparr>)"

subsection \<open>Construction\<close>

text \<open>
  The field initialisers of the class: \<open>dirty = false\<close> and
  \<open>cleanupFn = NOOP_CLEANUP_FN\<close>. The arguments of the constructor are the fields
  of the record \<open>Watch\<close>. The register and \<open>ext\<close> are what they were before.

  Modelled from the spec: the initial \<open>trackingVersion\<close> of the base class
  \<open>ReactiveNode\<close> (\<open>graph.ts\<close>, not among the sources). The spec (4.2) reads the test
  \<open>trackingVersion !== 0\<close> of \<open>run()\<close> as "this is not the very first run", so a new
  node has tracking version 0.
\<close>

definition new_Watch :: "'n option \<Rightarrow> 'u \<Rightarrow> ('n, 'f, 'u) state" where
  "new_Watch ac u =
     \<lparr>activeConsumer = ac, dirty = False, cleanupFn = NOOP_CLEANUP_FN,
      trackingVersion = 0, ext = u\<rparr>"

subsection \<open>Methods\<close>

text \<open>\<open>registerOnCleanup = (cleanupFn) => { this.cleanupFn = cleanupFn; }\<close>\<close>

definition registerOnCleanup ::
  "'f WatchCleanupFn \<Rightarrow> ('n, 'f, 'u) state \<Rightarrow> ('n, 'f, 'u) state" where
  "registerOnCleanup f s = s\<lparr>cleanupFn := f\<rparr>"

text \<open>The call \<open>this.cleanupFn()\<close>: \<open>NOOP_CLEANUP_FN\<close> is \<open>() => {}\<close>.\<close>

definition call_cleanupFn :: "('n, 'f, 'e, 'u) Watch \<Rightarrow> ('n, 'f, 'e, 'u) fn" where
  "call_cleanupFn W s =
     (case cleanupFn s of
        NOOP_CLEANUP_FN \<Rightarrow> (Returned, s)
      | Closure f \<Rightarrow> closure W f s)"

text \<open>
  \<^verbatim>\<open>notify(): void {
    if (!this.dirty) { this.schedule(this); }
    this.dirty = true;
  }\<close>
  When \<open>schedule\<close> throws, the assignment is not reached.
\<close>

definition notify :: "('n, 'f, 'e, 'u) Watch \<Rightarrow> ('n, 'f, 'e, 'u) action" where
  "notify W s =
     (if \<not> dirty s then
        (case schedule W s of
           (Threw e, s') \<Rightarrow> (Threw e, [(ScheduleFn, s)], s')
         | (Returned, s') \<Rightarrow> (Returned, [(ScheduleFn, s)], s'\<lparr>dirty := True\<rparr>))
      else (Returned, [], s\<lparr>dirty := True\<rparr>))"

text \<open>\<open>onConsumerDependencyMayHaveChanged(): void { this.notify(); }\<close>\<close>

definition onConsumerDependencyMayHaveChanged ::
  "('n, 'f, 'e, 'u) Watch \<Rightarrow> ('n, 'f, 'e, 'u) action" where
  "onConsumerDependencyMayHaveChanged W s = notify W s"

text \<open>\<open>onProducerUpdateValueVersion(): void {}\<close>: watches are not producers.\<close>

definition onProducerUpdateValueVersion ::
  "('n, 'f, 'e, 'u) Watch \<Rightarrow> ('n, 'f, 'e, 'u) action" where
  "onProducerUpdateValueVersion W s = (Returned, [], s)"

text \<open>
  The condition of the \<open>if\<close> in \<open>run()\<close>,
  \<open>this.trackingVersion !== 0 && !this.consumerPollProducersForChange()\<close>:
  \<open>&&\<close> evaluates its right operand, and so polls, only when the left one is true.
\<close>

definition nothing_changed ::
  "('n, 'f, 'e, 'u) Watch \<Rightarrow> ('n, 'f, 'u) state \<Rightarrow> bool \<times> ('n, 'f, 'u) state" where
  "nothing_changed W s =
     (if trackingVersion s \<noteq> 0 then
        (case consumerPollProducersForChange W (ext s) of
           (changed, u) \<Rightarrow> (\<not> changed, s\<lparr>ext := u\<rparr>))
      else (False, s))"

text \<open>
  \<^verbatim>\<open>run(): void {
    this.dirty = false;
    if (this.trackingVersion !== 0 && !this.consumerPollProducersForChange()) {
      return;
    }
    const prevConsumer = setActiveConsumer(this);
    this.trackingVersion++;
    try {
      this.cleanupFn();
      this.cleanupFn = NOOP_CLEANUP_FN;
      this.watch(this.registerOnCleanup);
    } finally {
      setActiveConsumer(prevConsumer);
    }
  }\<close>
  The \<open>finally\<close> block runs on both exits of the \<open>try\<close> block; an exception thrown
  in the \<open>try\<close> block is thrown again after it. The watch function gets
  \<open>registerOnCleanup\<close> as its argument: in the model it is a state transformer
  and can apply \<open>registerOnCleanup\<close> to the state.
\<close>

definition run :: "('n, 'f, 'e, 'u) Watch \<Rightarrow> ('n, 'f, 'e, 'u) action" where
  "run W s0 =
     (let s1 = s0\<lparr>dirty := False\<rparr> in
      case nothing_changed W s1 of
        (True, s2) \<Rightarrow> (Returned, [], s2)
      | (False, s2) \<Rightarrow>
          (case setActiveConsumer (Some (self W)) s2 of
             (prevConsumer, s3) \<Rightarrow>
               (let s4 = s3\<lparr>trackingVersion := trackingVersion s3 + 1\<rparr> in
                case call_cleanupFn W s4 of
                  (Threw e, s5) \<Rightarrow>
                    (Threw e, [(CleanupFn (cleanupFn s4), s4)],
                     snd (setActiveConsumer prevConsumer s5))
                | (Returned, s5) \<Rightarrow>
                    (let s6 = s5\<lparr>cleanupFn := NOOP_CLEANUP_FN\<rparr> in
                     case watch W s6 of
                       (r, s7) \<Rightarrow>
                         (r, [(CleanupFn (cleanupFn s4), s4), (WatchFn, s6)],
                          snd (setActiveConsumer prevConsumer s7))))))"

text \<open>\<open>cleanup() { this.cleanupFn(); }\<close>\<close>

definition cleanup :: "('n, 'f, 'e, 'u) Watch \<Rightarrow> ('n, 'f, 'e, 'u) action" where
  "cleanup W s =
     (case call_cleanupFn W s of
        (r, s') \<Rightarrow> (r, [(CleanupFn (cleanupFn s), s)], s'))"

subsection \<open>Callers\<close>

text \<open>
  A caller that makes one call after another: an exception of the first call
  leaves the caller, so the second call is not made.
\<close>

definition and_then ::
  "('n, 'f, 'e, 'u) action \<Rightarrow> ('n, 'f, 'e, 'u) action \<Rightarrow> ('n, 'f, 'e, 'u) action" where
  "and_then m1 m2 s =
     (case m1 s of
        (Threw e, c1, s1) \<Rightarrow> (Threw e, c1, s1)
      | (Returned, c1, s1) \<Rightarrow>
          (case m2 s1 of (r, c2, s2) \<Rightarrow> (r, c1 @ c2, s2)))"

fun repeated :: "nat \<Rightarrow> ('n, 'f, 'e, 'u) action \<Rightarrow> ('n, 'f, 'e, 'u) action" where
  "repeated 0 m s = (Returned, [], s)"
| "repeated (Suc n) m s = and_then m (repeated n m) s"

subsection \<open>Derived notions\<close>

text \<open>
  \<open>entered W s\<close> is the state in which \<open>run()\<close>, called in state \<open>s\<close>, enters its
  \<open>try\<close> block: the dirty flag cleared, the producers polled (unless this is the
  first run), the watch installed as active consumer and the tracking version
  incremented.
\<close>

definition entered ::
  "('n, 'f, 'e, 'u) Watch \<Rightarrow> ('n, 'f, 'u) state \<Rightarrow> ('n, 'f, 'u) state" where
  "entered W s =
     (snd (nothing_changed W (s\<lparr>dirty := False\<rparr>)))
       \<lparr>activeConsumer := Some (self W), trackingVersion := trackingVersion s + 1\<rparr>"

text \<open>
  A call of the user function \<open>f\<close> in state \<open>s\<close> leaves the private fields
  \<open>dirty\<close> and \<open>trackingVersion\<close> of the watch as they are. They are written by
  \<open>notify()\<close> and \<open>run()\<close> only, so this holds of every call that does not
  re-enter one of the two.
\<close>

definition leaves_flags :: "('n, 'f, 'e, 'u) fn \<Rightarrow> ('n, 'f, 'u) state \<Rightarrow> bool" where
  "leaves_flags f s \<longleftrightarrow>
     dirty (snd (f s)) = dirty s \<and> trackingVersion (snd (f s)) = trackingVersion s"


subsection \<open>The order of steps the specification gives for \<open>run()\<close>\<close>

text \<open>
  The specification (4.2) lists the steps of a run that does not short-circuit as:
  "invoke any pending cleanup from the previous run, clear it, increment the
  tracking version, install self as active consumer, execute the watch function,
  restore the previous active consumer (guaranteed via exit-path-safe
  restoration), set state to Clean", the last one "only on successful
  completion". \<open>run_as_specified\<close> performs them in that order; it is compared
  with \<open>run\<close> below.
\<close>

definition run_as_specified :: "('n, 'f, 'e, 'u) Watch \<Rightarrow> ('n, 'f, 'e, 'u) action" where
  "run_as_specified W s0 =
     (case nothing_changed W s0 of
        (True, s1) \<Rightarrow> (Returned, [], s1\<lparr>dirty := False\<rparr>)
      | (False, s1) \<Rightarrow>
          (case call_cleanupFn W s1 of
             (Threw e, s2) \<Rightarrow> (Threw e, [(CleanupFn (cleanupFn s1), s1)], s2)
           | (Returned, s2) \<Rightarrow>
               (let s3 = s2\<lparr>cleanupFn := NOOP_CLEANUP_FN\<rparr>;
                    s4 = s3\<lparr>trackingVersion := trackingVersion s3 + 1\<rparr>
                in case setActiveConsumer (Some (self W)) s4 of
                     (prevConsumer, s5) \<Rightarrow>
                       (case watch W s5 of
                          (Threw e, s6) \<Rightarrow>
                            (Threw e, [(CleanupFn (cleanupFn s1), s1), (WatchFn, s5)],
                             snd (setActiveConsumer prevConsumer s6))
                        | (Returned, s6) \<Rightarrow>
                            (Returned, [(CleanupFn (cleanupFn s1), s1), (WatchFn, s5)],
                             (snd (setActiveConsumer prevConsumer s6))
                               \<lparr>dirty := False\<rparr>)))))"

subsection \<open>Example watches\<close>

text \<open>
  \<open>counting_watch\<close>: the watch function and the scheduler each count their calls,
  in the two components of \<open>ext\<close>; polling finds no change.
  \<^verbatim>\<open>new Watch(() => { runs++; }, (w) => { scheduled++; }, false)\<close>
\<close>

definition counting_watch :: "(nat, nat, string, nat \<times> nat) Watch" where
  "counting_watch =
     \<lparr>self = 1,
      watch = (\<lambda>s. (Returned, s\<lparr>ext := (fst (ext s) + 1, snd (ext s))\<rparr>)),
      schedule = (\<lambda>s. (Returned, s\<lparr>ext := (fst (ext s), snd (ext s) + 1)\<rparr>)),
      consumerAllowSignalWrites = False,
      closure = (\<lambda>f s. (Returned, s)),
      consumerPollProducersForChange = (\<lambda>u. (False, u))\<rparr>"

text \<open>
  \<open>throwing_watch\<close>: the watch function throws; polling finds a change.
  \<^verbatim>\<open>new Watch(() => { throw 'boom'; }, (w) => {}, false)\<close>
\<close>

definition throwing_watch :: "(nat, nat, string, unit) Watch" where
  "throwing_watch =
     \<lparr>self = 1,
      watch = (\<lambda>s. (Threw ''boom'', s)),
      schedule = (\<lambda>s. (Returned, s)),
      consumerAllowSignalWrites = False,
      closure = (\<lambda>f s. (Returned, s)),
      consumerPollProducersForChange = (\<lambda>u. (True, u))\<rparr>"

text \<open>
  \<open>probing_watch\<close>: the watch function registers the closure \<open>0\<close>, which appends to
  \<open>ext\<close> the active consumer, the tracking version and the dirty flag it finds;
  polling finds a change.
  \<^verbatim>\<open>new Watch((onCleanup) => { onCleanup(probe); }, (w) => {}, false)\<close>
\<close>

definition probing_watch :: "(nat, nat, string, (nat option \<times> nat \<times> bool) list) Watch" where
  "probing_watch =
     \<lparr>self = 1,
      watch = (\<lambda>s. (Returned, registerOnCleanup (Closure 0) s)),
      schedule = (\<lambda>s. (Returned, s)),
      consumerAllowSignalWrites = False,
      closure =
        (\<lambda>f s. (Returned,
                 s\<lparr>ext := ext s @ [(activeConsumer s, trackingVersion s, dirty s)]\<rparr>)),
      consumerPollProducersForChange = (\<lambda>u. (True, u))\<rparr>"



text \<open>
  \<open>renotifying_watch\<close>: the scheduler counts its calls in \<open>ext\<close> and, on its first
  call, calls \<open>notify()\<close> of the watch it is given.
  \<^verbatim>\<open>new Watch(() => {}, (w) => { scheduled++; if (scheduled === 1) { w.notify(); } }, false)\<close>
  That re-entrant \<open>notify()\<close> finds the counter at 1, where the scheduler only
  counts: \<open>renotified_watch\<close> is the same watch as that call finds it.
\<close>

definition renotified_watch :: "(nat, nat, string, nat) Watch" where
  "renotified_watch =
     \<lparr>self = 1,
      watch = (\<lambda>s. (Returned, s)),
      schedule = (\<lambda>s. (Returned, s\<lparr>ext := ext s + 1\<rparr>)),
      consumerAllowSignalWrites = False,
      closure = (\<lambda>f s. (Returned, s)),
      consumerPollProducersForChange = (\<lambda>u. (True, u))\<rparr>"

definition renotifying_watch :: "(nat, nat, string, nat) Watch" where
  "renotifying_watch =
     renotified_watch
       \<lparr>schedule :=
          (\<lambda>s. if ext s = 0
               then (case notify renotified_watch (s\<lparr>ext := 1\<rparr>) of (r, c, s') \<Rightarrow> (r, s'))
               else (Returned, s\<lparr>ext := ext s + 1\<rparr>))\<rparr>"



text \<open>
  States reached by calling the methods: the throwing watch constructed and
  notified; the probing watch constructed, run and notified; the watch with the
  failing cleanup constructed and run; the watch that registers once constructed,
  run and notified; the two watches whose cleanup registers another one, each
  constructed and run.
\<close>

definition throwing_notified :: "(nat, nat, unit) state" where
  "throwing_notified = state_of (notify throwing_watch (new_Watch None ()))"

definition probing_rerun :: "(nat, nat, (nat option \<times> nat \<times> bool) list) state" where
  "probing_rerun =
     state_of (notify probing_watch (state_of (run probing_watch (new_Watch None []))))"





section \<open>Unfolding \<open>run()\<close>\<close>

lemma nothing_changed_first:
  "trackingVersion s = 0 \<Longrightarrow> nothing_changed W s = (False, s)"
  by (simp add: nothing_changed_def)

lemma nothing_changed_poll:
  "trackingVersion s \<noteq> 0 \<Longrightarrow>
   nothing_changed W s =
     (\<not> fst (consumerPollProducersForChange W (ext s)),
      s\<lparr>ext := snd (consumerPollProducersForChange W (ext s))\<rparr>)"
  by (simp add: nothing_changed_def split: prod.splits)

lemma nothing_changed_fields:
  "activeConsumer (snd (nothing_changed W s)) = activeConsumer s"
  "dirty (snd (nothing_changed W s)) = dirty s"
  "cleanupFn (snd (nothing_changed W s)) = cleanupFn s"
  "trackingVersion (snd (nothing_changed W s)) = trackingVersion s"
  by (simp_all add: nothing_changed_def split: prod.splits)

lemma entered_fields:
  "activeConsumer (entered W s) = Some (self W)"
  "dirty (entered W s) = False"
  "cleanupFn (entered W s) = cleanupFn s"
  "trackingVersion (entered W s) = trackingVersion s + 1"
  by (simp_all add: entered_def nothing_changed_fields)

lemma run_short_circuit:
  assumes "fst (nothing_changed W (s\<lparr>dirty := False\<rparr>))"
  shows "run W s = (Returned, [], snd (nothing_changed W (s\<lparr>dirty := False\<rparr>)))"
proof -
  obtain b s2 where n: "nothing_changed W (s\<lparr>dirty := False\<rparr>) = (b, s2)"
    by (cases "nothing_changed W (s\<lparr>dirty := False\<rparr>)")
  with assms have "b" by simp
  with n show ?thesis by (simp add: run_def)
qed

lemma run_cleanup_throws:
  assumes "\<not> fst (nothing_changed W (s\<lparr>dirty := False\<rparr>))"
    and "call_cleanupFn W (entered W s) = (Threw e, s5)"
  shows "run W s =
    (Threw e, [(CleanupFn (cleanupFn s), entered W s)],
     s5\<lparr>activeConsumer := activeConsumer s\<rparr>)"
proof -
  obtain b s2 where n: "nothing_changed W (s\<lparr>dirty := False\<rparr>) = (b, s2)"
    by (cases "nothing_changed W (s\<lparr>dirty := False\<rparr>)")
  with assms(1) have b: "\<not> b" by simp
  have ac: "activeConsumer s2 = activeConsumer s"
    using nothing_changed_fields(1) [of W "s\<lparr>dirty := False\<rparr>"] n by simp
  have tv: "trackingVersion s2 = trackingVersion s"
    using nothing_changed_fields(4) [of W "s\<lparr>dirty := False\<rparr>"] n by simp
  have cf: "cleanupFn s2 = cleanupFn s"
    using nothing_changed_fields(3) [of W "s\<lparr>dirty := False\<rparr>"] n by simp
  have e: "entered W s =
      s2\<lparr>activeConsumer := Some (self W), trackingVersion := trackingVersion s2 + 1\<rparr>"
    by (simp add: entered_def n tv)
  from assms(2) show ?thesis
    by (simp add: run_def n b setActiveConsumer_def Let_def ac cf e)
qed

lemma run_watch_called:
  assumes "\<not> fst (nothing_changed W (s\<lparr>dirty := False\<rparr>))"
    and "call_cleanupFn W (entered W s) = (Returned, s5)"
    and "watch W (s5\<lparr>cleanupFn := NOOP_CLEANUP_FN\<rparr>) = (r, s7)"
  shows "run W s =
    (r, [(CleanupFn (cleanupFn s), entered W s),
         (WatchFn, s5\<lparr>cleanupFn := NOOP_CLEANUP_FN\<rparr>)],
     s7\<lparr>activeConsumer := activeConsumer s\<rparr>)"
proof -
  obtain b s2 where n: "nothing_changed W (s\<lparr>dirty := False\<rparr>) = (b, s2)"
    by (cases "nothing_changed W (s\<lparr>dirty := False\<rparr>)")
  with assms(1) have b: "\<not> b" by simp
  have ac: "activeConsumer s2 = activeConsumer s"
    using nothing_changed_fields(1) [of W "s\<lparr>dirty := False\<rparr>"] n by simp
  have tv: "trackingVersion s2 = trackingVersion s"
    using nothing_changed_fields(4) [of W "s\<lparr>dirty := False\<rparr>"] n by simp
  have cf: "cleanupFn s2 = cleanupFn s"
    using nothing_changed_fields(3) [of W "s\<lparr>dirty := False\<rparr>"] n by simp
  have e: "entered W s =
      s2\<lparr>activeConsumer := Some (self W), trackingVersion := trackingVersion s2 + 1\<rparr>"
    by (simp add: entered_def n tv)
  from assms(2) show ?thesis
    by (simp add: run_def n b setActiveConsumer_def Let_def ac cf e assms(3))
qed

text \<open>The three exits of \<open>run()\<close>, as one case distinction.\<close>

lemma run_cases:
  obtains
    (short_circuit) "fst (nothing_changed W (s\<lparr>dirty := False\<rparr>))"
      "run W s = (Returned, [], snd (nothing_changed W (s\<lparr>dirty := False\<rparr>)))"
  | (cleanup_throws) e s5 where
      "\<not> fst (nothing_changed W (s\<lparr>dirty := False\<rparr>))"
      "call_cleanupFn W (entered W s) = (Threw e, s5)"
      "run W s =
        (Threw e, [(CleanupFn (cleanupFn s), entered W s)],
         s5\<lparr>activeConsumer := activeConsumer s\<rparr>)"
  | (watch_called) s5 r s7 where
      "\<not> fst (nothing_changed W (s\<lparr>dirty := False\<rparr>))"
      "call_cleanupFn W (entered W s) = (Returned, s5)"
      "watch W (s5\<lparr>cleanupFn := NOOP_CLEANUP_FN\<rparr>) = (r, s7)"
      "run W s =
        (r, [(CleanupFn (cleanupFn s), entered W s),
             (WatchFn, s5\<lparr>cleanupFn := NOOP_CLEANUP_FN\<rparr>)],
         s7\<lparr>activeConsumer := activeConsumer s\<rparr>)"
proof (cases "fst (nothing_changed W (s\<lparr>dirty := False\<rparr>))")
  case True
  then show ?thesis using run_short_circuit short_circuit by blast
next
  case False
  obtain o5 s5 where c: "call_cleanupFn W (entered W s) = (o5, s5)"
    by (cases "call_cleanupFn W (entered W s)")
  show ?thesis
  proof (cases o5)
    case Returned
    obtain r s7 where w: "watch W (s5\<lparr>cleanupFn := NOOP_CLEANUP_FN\<rparr>) = (r, s7)"
      by (cases "watch W (s5\<lparr>cleanupFn := NOOP_CLEANUP_FN\<rparr>)")
    from False c Returned w show ?thesis
      using run_watch_called [of W s s5 r s7] watch_called [of s5 r s7] by simp
  next
    case (Threw e)
    from False c Threw show ?thesis
      using run_cleanup_throws [of W s e s5] cleanup_throws [of e s5] by simp
  qed
qed

lemma executing_iff:
  "\<not> fst (nothing_changed W (s\<lparr>dirty := False\<rparr>)) \<longleftrightarrow>
   trackingVersion s = 0 \<or> fst (consumerPollProducersForChange W (ext s))"
  by (simp add: nothing_changed_def split: prod.splits)

lemmas watch_defs =
  run_def notify_def cleanup_def nothing_changed_def setActiveConsumer_def
  call_cleanupFn_def registerOnCleanup_def new_Watch_def
  outcome_of_def calls_of_def state_of_def Let_def

section \<open>Properties\<close>

subsection \<open>Construction and the first run\<close>

text \<open>
  C6, as claimed: every freshly constructed watch has its dirty flag set. It is
  not so: the field initialiser is \<open>dirty = false\<close>. Here the watch is constructed
  with no active consumer.
\<close>

theorem fresh_watch_dirty_counterexample:
  "dirty (new_Watch None () :: (nat, nat, unit) state) = False"
  by (simp add: new_Watch_def)

text \<open>
  C6, amended: every freshly constructed watch starts with its dirty flag cleared,
  before any \<open>notify()\<close> or \<open>run()\<close>; so the first \<open>notify()\<close> calls \<open>schedule\<close>.
\<close>

theorem new_Watch_starts_clean:
  "\<not> dirty (new_Watch ac u) \<and>
   calls_of (notify W (new_Watch ac u)) = [(ScheduleFn, new_Watch ac u)]"
  by (simp add: new_Watch_def notify_def calls_of_def split: prod.splits outcome.splits)

text \<open>
  C4: the first \<open>run()\<close> of a freshly constructed watch executes the watch
  function, whether \<open>notify()\<close> was never called (the dirty flag is clear) or was
  (the flag is set). The tracking version is 0, so the producers are not polled;
  \<open>NOOP_CLEANUP_FN\<close> is called; then the watch function is called, in the state
  \<open>s1\<close> with the watch as active consumer and tracking version 1. The outcome
  of \<open>run()\<close> is the outcome of the watch function, and the state after \<open>run()\<close> is
  the state the watch function left, with the previous consumer restored.
\<close>

theorem first_run_executes:
  "(let s1 = \<lparr>activeConsumer = Some (self W), dirty = False,
               cleanupFn = NOOP_CLEANUP_FN, trackingVersion = 1, ext = u\<rparr>
    in run W (new_Watch ac u) =
         (fst (watch W s1), [(CleanupFn NOOP_CLEANUP_FN, s1), (WatchFn, s1)],
          (snd (watch W s1))\<lparr>activeConsumer := ac\<rparr>) \<and>
       run W ((new_Watch ac u)\<lparr>dirty := True\<rparr>) =
         (fst (watch W s1), [(CleanupFn NOOP_CLEANUP_FN, s1), (WatchFn, s1)],
          (snd (watch W s1))\<lparr>activeConsumer := ac\<rparr>))"
  by (simp add: new_Watch_def run_def nothing_changed_def setActiveConsumer_def
      call_cleanupFn_def Let_def split: prod.splits)

text \<open>
  The counting watch, constructed and run: the watch function has counted one
  execution, with or without a \<open>notify()\<close> before.
\<close>

theorem first_run_executes_witness:
  "run counting_watch (new_Watch None (0, 0)) =
     (Returned,
      [(CleanupFn NOOP_CLEANUP_FN,
        \<lparr>activeConsumer = Some 1, dirty = False, cleanupFn = NOOP_CLEANUP_FN,
         trackingVersion = 1, ext = (0, 0)\<rparr>),
       (WatchFn,
        \<lparr>activeConsumer = Some 1, dirty = False, cleanupFn = NOOP_CLEANUP_FN,
         trackingVersion = 1, ext = (0, 0)\<rparr>)],
      \<lparr>activeConsumer = None, dirty = False, cleanupFn = NOOP_CLEANUP_FN,
       trackingVersion = 1, ext = (1, 0)\<rparr>) \<and>
   run counting_watch ((new_Watch None (0, 0))\<lparr>dirty := True\<rparr>) =
     (Returned,
      [(CleanupFn NOOP_CLEANUP_FN,
        \<lparr>activeConsumer = Some 1, dirty = False, cleanupFn = NOOP_CLEANUP_FN,
         trackingVersion = 1, ext = (0, 0)\<rparr>),
       (WatchFn,
        \<lparr>activeConsumer = Some 1, dirty = False, cleanupFn = NOOP_CLEANUP_FN,
         trackingVersion = 1, ext = (0, 0)\<rparr>)],
      \<lparr>activeConsumer = None, dirty = False, cleanupFn = NOOP_CLEANUP_FN,
       trackingVersion = 1, ext = (1, 0)\<rparr>)"
proof -
  have w: "watch counting_watch
      \<lparr>activeConsumer = Some (self counting_watch), dirty = False,
       cleanupFn = NOOP_CLEANUP_FN, trackingVersion = 1, ext = (0, 0)\<rparr> =
      (Returned,
       \<lparr>activeConsumer = Some 1, dirty = False, cleanupFn = NOOP_CLEANUP_FN,
        trackingVersion = 1, ext = (1, 0)\<rparr>)"
    by (simp add: counting_watch_def)
  have i: "self counting_watch = 1" by (simp add: counting_watch_def)
  show ?thesis
    using w first_run_executes [of counting_watch "(0, 0)" None]
    by (simp add: Let_def i)
qed

subsection \<open>The short-circuit\<close>

text \<open>
  C2: when the watch has run before (its tracking version is not 0) and
  \<open>consumerPollProducersForChange()\<close> answers false, \<open>run()\<close> returns having called
  no user function, so not the watch function, and the watch is not dirty.
  Nothing but the dirty flag and what polling did to \<open>ext\<close> has changed.
\<close>

theorem run_short_circuits_when_unchanged:
  assumes "trackingVersion s \<noteq> 0"
    and "consumerPollProducersForChange W (ext s) = (False, u)"
  shows "run W s = (Returned, [], s\<lparr>dirty := False, ext := u\<rparr>)"
  using assms by (simp add: run_def nothing_changed_def)

text \<open>
  The counting watch is constructed, run, notified and run again: the second run
  leaves the count of executions at 1.
\<close>

theorem run_short_circuits_when_unchanged_witness:
  "trackingVersion (state_of (notify counting_watch
      (state_of (run counting_watch (new_Watch None (0, 0)))))) \<noteq> 0 \<and>
   consumerPollProducersForChange counting_watch (1, 1) = (False, (1, 1)) \<and>
   run counting_watch
     (state_of (notify counting_watch (state_of (run counting_watch (new_Watch None (0, 0))))))
   = (Returned, [],
      \<lparr>activeConsumer = None, dirty = False, cleanupFn = NOOP_CLEANUP_FN,
       trackingVersion = 1, ext = (1, 1)\<rparr>)"
proof -
  let ?s = "state_of (notify counting_watch
      (state_of (run counting_watch (new_Watch None (0, 0)))))"
  have s: "?s = \<lparr>activeConsumer = None, dirty = True, cleanupFn = NOOP_CLEANUP_FN,
       trackingVersion = 1, ext = (1, 1)\<rparr>"
    by (simp add: counting_watch_def watch_defs)
  have p: "consumerPollProducersForChange counting_watch (ext ?s) = (False, (1, 1))"
    by (simp add: s) (simp add: counting_watch_def)
  have t: "trackingVersion ?s \<noteq> 0" by (simp add: s)
  show ?thesis
    using run_short_circuits_when_unchanged [OF t p] t p by (simp add: s)
qed

subsection \<open>Exceptions of the watch function\<close>

lemma run_restores_activeConsumer:
  "activeConsumer (state_of (run W s)) = activeConsumer s"
  by (cases rule: run_cases [of W s]) (simp_all add: state_of_def nothing_changed_fields)



subsection \<open>Notification\<close>

lemma notify_when_dirty: "dirty s \<Longrightarrow> notify W s = (Returned, [], s)"
  by (simp add: notify_def)

lemma repeated_notify_when_dirty:
  "dirty s \<Longrightarrow> repeated n (notify W) s = (Returned, [], s)"
  by (induction n) (simp_all add: and_then_def notify_when_dirty)

text \<open>
  C3, as claimed: between the first \<open>notify()\<close> on a clean watch and the next
  \<open>run()\<close>, \<open>schedule\<close> is called once, every further \<open>notify()\<close> calling it zero
  times. It is not so when a \<open>notify()\<close> arrives while \<open>schedule\<close> is running:
  \<open>notify()\<close> sets the flag only after \<open>schedule\<close> has returned. The renotifying
  watch is constructed and notified once from outside. Its scheduler, at
  counter 1, calls \<open>notify()\<close> again: for that call the watch is the renotified
  watch, it is not dirty, and the call calls \<open>schedule\<close>. When the outer
  \<open>notify()\<close> returns the scheduler has counted 2 calls, and no \<open>run()\<close> was made.
\<close>

theorem notify_during_schedule_counterexample:
  "schedule renotifying_watch ((new_Watch None 0)\<lparr>ext := 1\<rparr>) =
     schedule renotified_watch ((new_Watch None 0)\<lparr>ext := 1\<rparr>) \<and>
   dirty ((new_Watch None 0 :: (nat, nat, nat) state)\<lparr>ext := 1\<rparr>) = False \<and>
   calls_of (notify renotified_watch ((new_Watch None 0)\<lparr>ext := 1\<rparr>)) =
     [(ScheduleFn, (new_Watch None 0)\<lparr>ext := 1\<rparr>)] \<and>
   notify renotifying_watch (new_Watch None 0) =
     (Returned, [(ScheduleFn, new_Watch None 0)],
      \<lparr>activeConsumer = None, dirty = True, cleanupFn = NOOP_CLEANUP_FN,
       trackingVersion = 0, ext = 2\<rparr>)"
  by (simp add: renotifying_watch_def renotified_watch_def watch_defs)

text \<open>
  C3, amended: a \<open>notify()\<close> on a watch that is not dirty calls \<open>schedule\<close>, once
  itself. When that call has returned, the watch is dirty, and however many
  calls of \<open>notify()\<close> follow one another (\<open>n + 1\<close> in all), \<open>schedule\<close> has been
  called once in all and the state is the one the first call left. From then
  until \<open>run()\<close> clears the flag, \<open>notify()\<close> in any state calls nothing and
  changes nothing. A \<open>notify()\<close> that arrives before the flag is set, while
  \<open>schedule\<close> is running or after it threw, is a \<open>notify()\<close> on a watch that is
  not dirty and calls \<open>schedule\<close> again.
\<close>

theorem schedule_once_per_dirty_period:
  assumes "\<not> dirty s"
  shows "calls_of (notify W s) = [(ScheduleFn, s)] \<and>
    (outcome_of (notify W s) = Returned \<longrightarrow>
       dirty (state_of (notify W s)) \<and>
       repeated (Suc n) (notify W) s =
         (Returned, [(ScheduleFn, s)], state_of (notify W s))) \<and>
    (\<forall>t. dirty t \<longrightarrow> notify W t = (Returned, [], t))"
proof -
  have later: "\<forall>t. dirty t \<longrightarrow> notify W t = (Returned, [], t)"
    by (simp add: notify_when_dirty)
  obtain r s1 where sch: "schedule W s = (r, s1)" by (cases "schedule W s")
  show ?thesis
  proof (cases r)
    case Returned
    with sch assms have n: "notify W s = (Returned, [(ScheduleFn, s)], s1\<lparr>dirty := True\<rparr>)"
      by (simp add: notify_def)
    have "repeated n (notify W) (s1\<lparr>dirty := True\<rparr>) = (Returned, [], s1\<lparr>dirty := True\<rparr>)"
      by (rule repeated_notify_when_dirty) simp
    with n later show ?thesis
      by (simp add: and_then_def calls_of_def state_of_def outcome_of_def)
  next
    case (Threw e)
    with sch assms have "notify W s = (Threw e, [(ScheduleFn, s)], s1)"
      by (simp add: notify_def)
    with later show ?thesis by (simp add: calls_of_def outcome_of_def)
  qed
qed

text \<open>
  The counting watch is constructed and notified three times: the scheduler has
  counted one call.
\<close>

theorem schedule_once_per_dirty_period_witness:
  "\<not> dirty (new_Watch None (0, 0) :: (nat, nat, nat \<times> nat) state) \<and>
   calls_of (notify counting_watch (new_Watch None (0, 0))) =
     [(ScheduleFn, new_Watch None (0, 0))] \<and>
   outcome_of (notify counting_watch (new_Watch None (0, 0))) = Returned \<and>
   repeated (Suc 2) (notify counting_watch) (new_Watch None (0, 0)) =
     (Returned, [(ScheduleFn, new_Watch None (0, 0))],
      \<lparr>activeConsumer = None, dirty = True, cleanupFn = NOOP_CLEANUP_FN,
       trackingVersion = 0, ext = (0, 1)\<rparr>)"
proof -
  have d: "\<not> dirty (new_Watch None (0, 0) :: (nat, nat, nat \<times> nat) state)"
    by (simp add: new_Watch_def)
  have n: "notify counting_watch (new_Watch None (0, 0)) =
     (Returned, [(ScheduleFn, new_Watch None (0, 0))],
      \<lparr>activeConsumer = None, dirty = True, cleanupFn = NOOP_CLEANUP_FN,
       trackingVersion = 0, ext = (0, 1)\<rparr>)"
    by (simp add: counting_watch_def notify_def new_Watch_def)
  show ?thesis
    using schedule_once_per_dirty_period [OF d, of counting_watch 2] d
    by (simp add: n calls_of_def outcome_of_def state_of_def)
qed

subsection \<open>What every run that does not short-circuit does\<close>



lemma run_executes_iff:
  "calls_of (run W s) \<noteq> [] \<longleftrightarrow>
   trackingVersion s = 0 \<or> fst (consumerPollProducersForChange W (ext s))"
  using executing_iff [of W s]
  by (cases rule: run_cases [of W s]) (simp_all add: calls_of_def)

text \<open>
  C7, as claimed: a run that does not short-circuit invokes the pending cleanup
  and clears it, then increments the tracking version and installs the watch as
  active consumer, executes the watch function, restores the consumer and at
  last sets the state to clean. It is not so. The probing watch is constructed
  with no active consumer, run (which registers the probe), notified and run
  again. In \<open>run()\<close> the probe finds the watch (node 1) installed as active
  consumer, the tracking version already 2 and the dirty flag already cleared;
  in the order claimed it would find no active consumer, tracking version 1 and
  the flag still set.
\<close>

theorem run_order_counterexample:
  "ext (state_of (run probing_watch probing_rerun)) = [(Some 1, 2, False)] \<and>
   ext (state_of (run_as_specified probing_watch probing_rerun)) = [(None, 1, True)]"
  by (simp add: probing_rerun_def probing_watch_def run_as_specified_def watch_defs)

text \<open>
  C7, amended: a run that does not short-circuit clears the dirty flag, installs
  the watch as active consumer and increments the tracking version before it
  calls the pending cleanup function: that function is called in the state
  \<open>entered W s\<close>. If it throws, the previous consumer is restored and the
  exception leaves \<open>run()\<close>. Otherwise the cleanup is cleared, the watch function
  is called, and the previous consumer is restored whether it returns or throws;
  nothing is written after that, the dirty flag in particular.
\<close>

theorem run_order_of_steps:
  assumes "trackingVersion s = 0 \<or> fst (consumerPollProducersForChange W (ext s))"
  shows "\<not> dirty (entered W s) \<and> activeConsumer (entered W s) = Some (self W) \<and>
    trackingVersion (entered W s) = trackingVersion s + 1 \<and>
    cleanupFn (entered W s) = cleanupFn s \<and>
    (case call_cleanupFn W (entered W s) of
       (Threw e, s5) \<Rightarrow>
         run W s = (Threw e, [(CleanupFn (cleanupFn s), entered W s)],
                    s5\<lparr>activeConsumer := activeConsumer s\<rparr>)
     | (Returned, s5) \<Rightarrow>
         run W s =
           (fst (watch W (s5\<lparr>cleanupFn := NOOP_CLEANUP_FN\<rparr>)),
            [(CleanupFn (cleanupFn s), entered W s),
             (WatchFn, s5\<lparr>cleanupFn := NOOP_CLEANUP_FN\<rparr>)],
            (snd (watch W (s5\<lparr>cleanupFn := NOOP_CLEANUP_FN\<rparr>)))
              \<lparr>activeConsumer := activeConsumer s\<rparr>))"
proof -
  from assms have x: "\<not> fst (nothing_changed W (s\<lparr>dirty := False\<rparr>))"
    by (simp add: executing_iff)
  obtain o5 s5 where c: "call_cleanupFn W (entered W s) = (o5, s5)"
    by (cases "call_cleanupFn W (entered W s)")
  have "case call_cleanupFn W (entered W s) of
       (Threw e, s5) \<Rightarrow>
         run W s = (Threw e, [(CleanupFn (cleanupFn s), entered W s)],
                    s5\<lparr>activeConsumer := activeConsumer s\<rparr>)
     | (Returned, s5) \<Rightarrow>
         run W s =
           (fst (watch W (s5\<lparr>cleanupFn := NOOP_CLEANUP_FN\<rparr>)),
            [(CleanupFn (cleanupFn s), entered W s),
             (WatchFn, s5\<lparr>cleanupFn := NOOP_CLEANUP_FN\<rparr>)],
            (snd (watch W (s5\<lparr>cleanupFn := NOOP_CLEANUP_FN\<rparr>)))
              \<lparr>activeConsumer := activeConsumer s\<rparr>)"
  proof (cases o5)
    case Returned
    with c x show ?thesis
      using run_watch_called [of W s s5 "fst (watch W (s5\<lparr>cleanupFn := NOOP_CLEANUP_FN\<rparr>))"
          "snd (watch W (s5\<lparr>cleanupFn := NOOP_CLEANUP_FN\<rparr>))"]
      by simp
  next
    case (Threw e)
    with c x show ?thesis using run_cleanup_throws [of W s e s5] by simp
  qed
  then show ?thesis by (simp add: entered_fields)
qed

text \<open>The second run of the probing watch: polling finds a change.\<close>

theorem run_order_of_steps_witness:
  "fst (consumerPollProducersForChange probing_watch (ext probing_rerun)) \<and>
   entered probing_watch probing_rerun =
     \<lparr>activeConsumer = Some 1, dirty = False, cleanupFn = Closure 0,
      trackingVersion = 2, ext = []\<rparr> \<and>
   run probing_watch probing_rerun =
     (Returned,
      [(CleanupFn (Closure 0),
        \<lparr>activeConsumer = Some 1, dirty = False, cleanupFn = Closure 0,
         trackingVersion = 2, ext = []\<rparr>),
       (WatchFn,
        \<lparr>activeConsumer = Some 1, dirty = False, cleanupFn = NOOP_CLEANUP_FN,
         trackingVersion = 2, ext = [(Some 1, 2, False)]\<rparr>)],
      \<lparr>activeConsumer = None, dirty = False, cleanupFn = Closure 0,
       trackingVersion = 2, ext = [(Some 1, 2, False)]\<rparr>)"
proof -
  have s: "probing_rerun =
      \<lparr>activeConsumer = None, dirty = True, cleanupFn = Closure 0,
       trackingVersion = 1, ext = []\<rparr>"
    by (simp add: probing_rerun_def probing_watch_def watch_defs)
  have h: "trackingVersion probing_rerun = 0 \<or>
      fst (consumerPollProducersForChange probing_watch (ext probing_rerun))"
    by (simp add: probing_watch_def)
  have e: "entered probing_watch probing_rerun =
      \<lparr>activeConsumer = Some 1, dirty = False, cleanupFn = Closure 0,
       trackingVersion = 2, ext = []\<rparr>"
    by (simp add: s entered_def nothing_changed_def) (simp add: probing_watch_def)
  have c: "call_cleanupFn probing_watch
      \<lparr>activeConsumer = Some 1, dirty = False, cleanupFn = Closure 0,
       trackingVersion = 2, ext = []\<rparr> =
      (Returned, \<lparr>activeConsumer = Some 1, dirty = False, cleanupFn = Closure 0,
       trackingVersion = 2, ext = [(Some 1, 2, False)]\<rparr>)"
    by (simp add: call_cleanupFn_def probing_watch_def)
  have w: "watch probing_watch
      \<lparr>activeConsumer = Some 1, dirty = False, cleanupFn = NOOP_CLEANUP_FN,
       trackingVersion = 2, ext = [(Some 1, 2, False)]\<rparr> =
      (Returned, \<lparr>activeConsumer = Some 1, dirty = False, cleanupFn = Closure 0,
       trackingVersion = 2, ext = [(Some 1, 2, False)]\<rparr>)"
    by (simp add: probing_watch_def registerOnCleanup_def)
  have a: "activeConsumer probing_rerun = None" "cleanupFn probing_rerun = Closure 0"
    "trackingVersion probing_rerun = 1" "self probing_watch = 1"
    by (simp_all add: s) (simp add: probing_watch_def)
  show ?thesis
    using c w run_order_of_steps [OF h] h
    by (simp add: e a)
qed

subsection \<open>A watch function that throws\<close>

text \<open>
  C5, as claimed: after a run in which the watch function threw, the watch is
  still dirty. It is not so. The throwing watch is constructed and notified, so
  it is dirty; \<open>run()\<close> throws \<open>''boom''\<close> and leaves the watch not dirty.
\<close>

theorem throwing_run_still_dirty_counterexample:
  "dirty throwing_notified \<and>
   outcome_of (run throwing_watch throwing_notified) = Threw ''boom'' \<and>
   \<not> dirty (state_of (run throwing_watch throwing_notified))"
  by (simp add: throwing_notified_def throwing_watch_def watch_defs)

lemma run_calls_watch_iff:
  "(\<exists>sw. (WatchFn, sw) \<in> set (calls_of (run W t))) \<longleftrightarrow>
   (trackingVersion t = 0 \<or> fst (consumerPollProducersForChange W (ext t))) \<and>
   fst (call_cleanupFn W (entered W t)) = Returned"
  using executing_iff [of W t]
  by (cases rule: run_cases [of W t]) (auto simp add: calls_of_def)

text \<open>
  C5, amended: when the watch function throws in a run, and neither it nor the
  cleanup function called before it has re-entered \<open>notify()\<close> or \<open>run()\<close>, then
  after the run the tracking version is incremented and the watch is not dirty,
  as after a run that returned. So the next \<open>notify()\<close> calls \<open>schedule\<close>. A
  \<open>run()\<close> at that tracking version short-circuits exactly when polling finds no
  change, and it calls the watch function again exactly when polling finds a
  change and the cleanup function then pending (the watch function may have
  registered one before it threw) returns.
\<close>

theorem throwing_run_leaves_clean:
  assumes "run W s = (r, c, s')"
    and "(WatchFn, sw) \<in> set c"
    and "fst (watch W sw) = Threw e"
    and "leaves_flags (call_cleanupFn W) (entered W s)"
    and "leaves_flags (watch W) sw"
  shows "r = Threw e \<and> trackingVersion s' = trackingVersion s + 1 \<and> \<not> dirty s' \<and>
    calls_of (notify W s') = [(ScheduleFn, s')] \<and>
    (\<forall>t. trackingVersion t = trackingVersion s' \<longrightarrow>
       (calls_of (run W t) \<noteq> [] \<longleftrightarrow> fst (consumerPollProducersForChange W (ext t))) \<and>
       ((\<exists>sw'. (WatchFn, sw') \<in> set (calls_of (run W t))) \<longleftrightarrow>
          fst (consumerPollProducersForChange W (ext t)) \<and>
          fst (call_cleanupFn W (entered W t)) = Returned))"
proof (cases rule: run_cases [of W s])
  case short_circuit
  with assms(1,2) show ?thesis by simp
next
  case (cleanup_throws e5 s5)
  with assms(1,2) show ?thesis by auto
next
  case (watch_called s5 r7 s7)
  with assms(1,2) have sw: "sw = s5\<lparr>cleanupFn := NOOP_CLEANUP_FN\<rparr>" by auto
  from watch_called assms(1) have r: "r = r7"
    and s': "s' = s7\<lparr>activeConsumer := activeConsumer s\<rparr>"
    by simp_all
  from watch_called(3) assms(3) sw have t: "r7 = Threw e" by simp
  from assms(4) watch_called(2)
  have f5: "dirty s5 = False" "trackingVersion s5 = trackingVersion s + 1"
    by (simp_all add: leaves_flags_def entered_fields)
  from assms(5) watch_called(3) sw f5
  have f7: "dirty s7 = False" "trackingVersion s7 = trackingVersion s + 1"
    by (simp_all add: leaves_flags_def)
  have n: "calls_of (notify W s') = [(ScheduleFn, s')]"
    using f7 s' by (simp add: notify_def calls_of_def split: prod.splits outcome.splits)
  have "\<forall>t. trackingVersion t = trackingVersion s' \<longrightarrow>
       (calls_of (run W t) \<noteq> [] \<longleftrightarrow> fst (consumerPollProducersForChange W (ext t))) \<and>
       ((\<exists>sw'. (WatchFn, sw') \<in> set (calls_of (run W t))) \<longleftrightarrow>
          fst (consumerPollProducersForChange W (ext t)) \<and>
          fst (call_cleanupFn W (entered W t)) = Returned)"
    using f7 s' by (simp add: run_executes_iff run_calls_watch_iff)
  with t r s' f7 n show ?thesis by simp
qed

text \<open>
  The throwing watch, constructed, notified and run; notified and run once
  more, it calls the watch function again.
\<close>

theorem throwing_run_leaves_clean_witness:
  "run throwing_watch throwing_notified =
     (Threw ''boom'',
      [(CleanupFn NOOP_CLEANUP_FN,
        \<lparr>activeConsumer = Some 1, dirty = False, cleanupFn = NOOP_CLEANUP_FN,
         trackingVersion = 1, ext = ()\<rparr>),
       (WatchFn,
        \<lparr>activeConsumer = Some 1, dirty = False, cleanupFn = NOOP_CLEANUP_FN,
         trackingVersion = 1, ext = ()\<rparr>)],
      \<lparr>activeConsumer = None, dirty = False, cleanupFn = NOOP_CLEANUP_FN,
       trackingVersion = 1, ext = ()\<rparr>) \<and>
   leaves_flags (call_cleanupFn throwing_watch) (entered throwing_watch throwing_notified) \<and>
   leaves_flags (watch throwing_watch)
     \<lparr>activeConsumer = Some 1, dirty = False, cleanupFn = NOOP_CLEANUP_FN,
      trackingVersion = 1, ext = ()\<rparr> \<and>
   trackingVersion throwing_notified + 1 = 1 \<and>
   calls_of (notify throwing_watch
     \<lparr>activeConsumer = None, dirty = False, cleanupFn = NOOP_CLEANUP_FN,
      trackingVersion = 1, ext = ()\<rparr>) =
     [(ScheduleFn,
       \<lparr>activeConsumer = None, dirty = False, cleanupFn = NOOP_CLEANUP_FN,
        trackingVersion = 1, ext = ()\<rparr>)] \<and>
   map fst (calls_of (run throwing_watch (state_of (notify throwing_watch
     \<lparr>activeConsumer = None, dirty = False, cleanupFn = NOOP_CLEANUP_FN,
      trackingVersion = 1, ext = ()\<rparr>)))) = [CleanupFn NOOP_CLEANUP_FN, WatchFn]"
proof -
  let ?sw = "\<lparr>activeConsumer = Some 1, dirty = False, cleanupFn = NOOP_CLEANUP_FN,
         trackingVersion = 1, ext = ()\<rparr> :: (nat, nat, unit) state"
  let ?s' = "\<lparr>activeConsumer = None, dirty = False, cleanupFn = NOOP_CLEANUP_FN,
         trackingVersion = 1, ext = ()\<rparr> :: (nat, nat, unit) state"
  have s: "throwing_notified =
      \<lparr>activeConsumer = None, dirty = True, cleanupFn = NOOP_CLEANUP_FN,
       trackingVersion = 0, ext = ()\<rparr>"
    by (simp add: throwing_notified_def throwing_watch_def watch_defs)
  have r: "run throwing_watch throwing_notified =
      (Threw ''boom'', [(CleanupFn NOOP_CLEANUP_FN, ?sw), (WatchFn, ?sw)], ?s')"
    by (simp add: s throwing_watch_def watch_defs)
  have m: "(WatchFn, ?sw) \<in> set [(CleanupFn NOOP_CLEANUP_FN, ?sw), (WatchFn, ?sw)]"
    by simp
  have w: "fst (watch throwing_watch ?sw) = Threw ''boom''"
    by (simp add: throwing_watch_def)
  have e: "entered throwing_watch throwing_notified = ?sw"
    by (simp add: s entered_def nothing_changed_def) (simp add: throwing_watch_def)
  have l1: "leaves_flags (call_cleanupFn throwing_watch)
      (entered throwing_watch throwing_notified)"
    by (simp add: e leaves_flags_def call_cleanupFn_def)
  have l2: "leaves_flags (watch throwing_watch) ?sw"
    by (simp add: leaves_flags_def throwing_watch_def)
  have again: "map fst (calls_of (run throwing_watch (state_of (notify throwing_watch ?s'))))
      = [CleanupFn NOOP_CLEANUP_FN, WatchFn]"
    by (simp add: throwing_watch_def watch_defs)
  show ?thesis
    using throwing_run_leaves_clean [OF r m w l1 l2] r l1 l2 again
    by (simp add: s)
qed

subsection \<open>Cleanup functions\<close>









end
